theory Spec2Isabelle
  imports
    Main
    "HOL-Library.Char_ord"
    "HOL-Library.List_Lexorder"
    "HOL-Library.Sublist"
    "HOL-Library.DAList"
    "HOL-Library.Multiset"
begin

section \<open>The Axanet client store (\<^verbatim>\<open>src/axanet_manager.py\<close>)\<close>

text \<open>
  A shallow embedding of class \<^verbatim>\<open>AxanetManager\<close>. Every method becomes a function
  from the store (the content of the data directory) to a result and the store
  afterwards.

  Conventions of the embedding:
  \<^item> A Python \<^verbatim>\<open>str\<close> is a \<^typ>\<open>string\<close>; the character with number \<open>n\<close> stands for
    the Unicode code point \<open>n\<close>, so the strings of the model are the Python strings
    over U+0000 .. U+00FF. On that range \<^verbatim>\<open>str.isalnum\<close>, \<^verbatim>\<open>str.isspace\<close> and
    \<^verbatim>\<open>str.lower\<close> are written out below as CPython computes them, and the
    comparison of two strings (by code point, a proper prefix first) is the
    lexicographic order of lists (\<^verbatim>\<open>HOL-Library.List_Lexorder\<close>) over the order of
    characters by their number (\<^verbatim>\<open>HOL-Library.Char_ord\<close>).
  \<^item> A \<^verbatim>\<open>dict\<close> that is iterated (the index) is an association list with distinct
    keys, in insertion order: \<^const>\<open>DAList.update\<close> replaces the value of a key in
    place and appends a new key at the end, as \<^verbatim>\<open>d[k] = v\<close> does, and
    \<^const>\<open>DAList.delete\<close> is \<^verbatim>\<open>del d[k]\<close>.
  \<^item> Every call of \<^verbatim>\<open>datetime.now().isoformat()\<close> is one reading of the clock. An
    operation takes the readings it makes as arguments, one per call, in program
    order.
  \<^item> A file of the clients directory is absent, holds text that \<^verbatim>\<open>json.load\<close>
    rejects, or holds a client document of the shape \<^verbatim>\<open>_save_client_data\<close> writes.
  \<^item> A raised exception is a value: the result of an operation that writes a client
    file is \<^verbatim>\<open>Inl OSError\<close> when \<^verbatim>\<open>open\<close> raises and \<^verbatim>\<open>Inr\<close> of the returned value
    otherwise, paired with the store the call leaves behind. \<^verbatim>\<open>open(filepath, 'w')\<close>
    raises when the file does not exist and the file system refuses its name (a name
    longer than the file system allows). The file names of the index are names under
    which \<^verbatim>\<open>create_client\<close> has written a file, so reading and removing them meets no
    other error than a missing file. Other failures of the operating system
    (permissions, a full disk) are outside the model.
\<close>

subsection \<open>Python string primitives\<close>

definition isalnum :: "char \<Rightarrow> bool" where
  "isalnum c =
     (let n = (of_char c :: nat) in
        (48 \<le> n \<and> n \<le> 57) \<or> (65 \<le> n \<and> n \<le> 90) \<or> (97 \<le> n \<and> n \<le> 122) \<or>
        n = 170 \<or> (178 \<le> n \<and> n \<le> 179) \<or> n = 181 \<or> (185 \<le> n \<and> n \<le> 186) \<or>
        (188 \<le> n \<and> n \<le> 190) \<or> (192 \<le> n \<and> n \<le> 214) \<or> (216 \<le> n \<and> n \<le> 246) \<or>
        248 \<le> n)"

definition isspace :: "char \<Rightarrow> bool" where
  "isspace c =
     (let n = (of_char c :: nat) in
        (9 \<le> n \<and> n \<le> 13) \<or> (28 \<le> n \<and> n \<le> 32) \<or> n = 133 \<or> n = 160)"

definition lower_char :: "char \<Rightarrow> char" where
  "lower_char c =
     (let n = (of_char c :: nat) in
        if (65 \<le> n \<and> n \<le> 90) \<or> (192 \<le> n \<and> n \<le> 222 \<and> n \<noteq> 215)
        then char_of (n + 32) else c)"

text \<open>\<^verbatim>\<open>s.lower()\<close>\<close>

definition lower :: "string \<Rightarrow> string" where
  "lower s = map lower_char s"

text \<open>\<^verbatim>\<open>s.strip()\<close>: leading and trailing whitespace removed.\<close>

definition strip :: "string \<Rightarrow> string" where
  "strip s = rev (dropWhile isspace (rev (dropWhile isspace s)))"

text \<open>\<^verbatim>\<open>s.replace(old, new)\<close> for one-character \<^verbatim>\<open>old\<close> and \<^verbatim>\<open>new\<close>.\<close>

definition replace :: "char \<Rightarrow> char \<Rightarrow> string \<Rightarrow> string" where
  "replace old new s = map (\<lambda>c. if c = old then new else c) s"

text \<open>\<^verbatim>\<open>q in s\<close> on strings: \<open>q\<close> occurs in \<open>s\<close> as a contiguous substring.\<close>

fun str_in :: "string \<Rightarrow> string \<Rightarrow> bool" where
  "str_in q [] = (q = [])"
| "str_in q (c # cs) = (prefix q (c # cs) \<or> str_in q cs)"

text \<open>
  \<^verbatim>\<open>xs.sort(key=key, reverse=True)\<close>. CPython reverses the list, sorts it stably in
  ascending order of the key and reverses it again, so that elements with equal keys
  keep their original order.
\<close>

definition sort_reverse :: "('a \<Rightarrow> 'k::linorder) \<Rightarrow> 'a list \<Rightarrow> 'a list" where
  "sort_reverse key xs = rev (sort_key key (rev xs))"

subsection \<open>Data model\<close>

type_synonym timestamp = string

text \<open>
  The entries of \<^verbatim>\<open>history\<close>, by their \<^verbatim>\<open>action\<close>. An \<^verbatim>\<open>updated\<close> entry has the keys
  \<^verbatim>\<open>service\<close> and \<^verbatim>\<open>notes\<close> only when the source sets them: a key that is absent is
  \<^const>\<open>None\<close>.
\<close>

datatype history_entry =
    Created string string timestamp
  | Updated timestamp "string option" "string option"
  | Consulted timestamp

text \<open>The dictionary built by \<^verbatim>\<open>list_clients\<close>: the basic fields.\<close>

record client_basic =
  name :: string
  service :: string
  "notes" :: string
  created_at :: timestamp
  updated_at :: timestamp

text \<open>The document of a client file: the basic fields and the history.\<close>

record client_data = client_basic +
  history :: "history_entry list"

datatype file_content = Unparseable | Document client_data

text \<open>
  The data directory after \<^verbatim>\<open>_ensure_directories\<close>: \<open>index\<close> is the dictionary that
  \<^verbatim>\<open>_load_index\<close> returns (the empty one when \<^verbatim>\<open>index.json\<close> is missing or
  unparseable), \<open>files\<close> maps a file name of \<^verbatim>\<open>data/clients\<close> to its content.
\<close>

text \<open>
  \<open>accepts\<close> holds of the names under which the file system of the data directory
  lets a new file be created.
\<close>

record store =
  index :: "(string, string) alist"
  files :: "string \<rightharpoonup> file_content"
  accepts :: "string \<Rightarrow> bool"

text \<open>The empty data directory, on a file system that puts no limit on file names.\<close>

definition empty_store :: store where
  "empty_store = \<lparr>index = DAList.empty, files = Map.empty, accepts = (\<lambda>filename. True)\<rparr>"

text \<open>The exception that \<^verbatim>\<open>open\<close> raises.\<close>

datatype os_error = OSError

subsection \<open>Private helpers\<close>

definition load_index :: "store \<Rightarrow> (string, string) alist" where
  "load_index s = index s"

definition save_index :: "(string, string) alist \<Rightarrow> store \<Rightarrow> store" where
  "save_index idx s = s\<lparr>index := idx\<rparr>"

definition generate_filename :: "string \<Rightarrow> string" where
  "generate_filename client_name =
     (let safe_name = strip (filter (\<lambda>c. isalnum c \<or> c \<in> set '' -_'') client_name);
          safe_name = lower (replace (CHR '' '') (CHR ''_'') safe_name)
      in safe_name @ ''.json'')"

text \<open>\<^const>\<open>None\<close> for \<^verbatim>\<open>FileNotFoundError\<close> and for \<^verbatim>\<open>json.JSONDecodeError\<close>.\<close>

definition load_client_data :: "store \<Rightarrow> string \<Rightarrow> client_data option" where
  "load_client_data s filename =
     (case files s filename of
        None \<Rightarrow> None
      | Some Unparseable \<Rightarrow> None
      | Some (Document d) \<Rightarrow> Some d)"

text \<open>
  \<^verbatim>\<open>open(filepath, 'w')\<close> opens a file that exists, and creates a file under a name
  that the file system accepts.
\<close>

definition opens_for_writing :: "store \<Rightarrow> string \<Rightarrow> bool" where
  "opens_for_writing s filename = (files s filename \<noteq> None \<or> accepts s filename)"

text \<open>
  \<^verbatim>\<open>_save_client_data\<close>: \<^verbatim>\<open>Inl OSError\<close> when \<^verbatim>\<open>open\<close> raises, and then nothing is
  written.
\<close>

definition save_client_data :: "string \<Rightarrow> client_data \<Rightarrow> store \<Rightarrow> os_error + store" where
  "save_client_data filename d s =
     (if opens_for_writing s filename
      then Inr (s\<lparr>files := (files s)(filename \<mapsto> Document d)\<rparr>)
      else Inl OSError)"

text \<open>\<^verbatim>\<open>os.remove\<close> with \<^verbatim>\<open>FileNotFoundError\<close> passed over.\<close>

definition remove_file :: "string \<Rightarrow> store \<Rightarrow> store" where
  "remove_file filename s = s\<lparr>files := (files s)(filename := None)\<rparr>"

subsection \<open>Operations\<close>

text \<open>
  \<^verbatim>\<open>create_client\<close>. \<open>t1\<close>, \<open>t2\<close>, \<open>t3\<close> are the clock readings of lines 71, 72 and 78.
  When \<^verbatim>\<open>_save_client_data\<close> raises at line 84, the index is not touched.
\<close>

definition create_client ::
  "string \<Rightarrow> string \<Rightarrow> string \<Rightarrow> timestamp \<Rightarrow> timestamp \<Rightarrow> timestamp \<Rightarrow> store \<Rightarrow>
   (os_error + bool) \<times> store"
where
  "create_client nm sv nt t1 t2 t3 s =
     (let idx = load_index s in
      if DAList.lookup idx nm \<noteq> None then (Inr False, s)
      else
        let filename = generate_filename nm;
            d = \<lparr>name = nm, service = sv, notes = nt, created_at = t1, updated_at = t2,
                 history = [Created sv nt t3]\<rparr>
        in case save_client_data filename d s of
             Inl e \<Rightarrow> (Inl e, s)
           | Inr s1 \<Rightarrow>
               let s2 = save_index (DAList.update nm filename idx) s1
               in (Inr True, s2))"

text \<open>
  \<^verbatim>\<open>update_client\<close>. An argument left at \<^verbatim>\<open>None\<close> is \<^const>\<open>None\<close>. \<open>t1\<close> and \<open>t2\<close> are
  the clock readings of lines 117 and 122, made only when \<^verbatim>\<open>updated\<close> is true.
\<close>

definition update_client ::
  "string \<Rightarrow> string option \<Rightarrow> string option \<Rightarrow> timestamp \<Rightarrow> timestamp \<Rightarrow> store \<Rightarrow>
   (os_error + bool) \<times> store"
where
  "update_client nm sv nt t1 t2 s =
     (case DAList.lookup (load_index s) nm of
        None \<Rightarrow> (Inr False, s)
      | Some filename \<Rightarrow>
          (case load_client_data s filename of
             None \<Rightarrow> (Inr False, s)
           | Some d \<Rightarrow>
               let (d1, updated1) =
                     (case sv of
                        Some v \<Rightarrow> if v \<noteq> service d then (d\<lparr>service := v\<rparr>, True) else (d, False)
                      | None \<Rightarrow> (d, False));
                   (d2, updated2) =
                     (case nt of
                        Some v \<Rightarrow> if v \<noteq> notes d1 then (d1\<lparr>notes := v\<rparr>, True) else (d1, updated1)
                      | None \<Rightarrow> (d1, updated1))
               in if updated2
                  then
                    let d3 = d2\<lparr>updated_at := t1\<rparr>;
                        history_entry = Updated t2 sv nt;
                        d4 = d3\<lparr>history := history d3 @ [history_entry]\<rparr>
                    in (case save_client_data filename d4 s of
                          Inl e \<Rightarrow> (Inl e, s)
                        | Inr s1 \<Rightarrow> (Inr True, s1))
                  else (Inr True, s)))"

text \<open>\<^verbatim>\<open>consult_client\<close>. \<open>t\<close> is the clock reading of line 153.\<close>

definition consult_client ::
  "string \<Rightarrow> timestamp \<Rightarrow> store \<Rightarrow> (os_error + client_data option) \<times> store"
where
  "consult_client nm t s =
     (case DAList.lookup (load_index s) nm of
        None \<Rightarrow> (Inr None, s)
      | Some filename \<Rightarrow>
          (case load_client_data s filename of
             None \<Rightarrow> (Inr None, s)
           | Some d \<Rightarrow>
               let d' = d\<lparr>history := history d @ [Consulted t]\<rparr>
               in (case save_client_data filename d' s of
                     Inl e \<Rightarrow> (Inl e, s)
                   | Inr s1 \<Rightarrow> (Inr (Some d'), s1))))"

text \<open>The loop of \<^verbatim>\<open>list_clients\<close> over \<^verbatim>\<open>index.items()\<close>, appending to \<^verbatim>\<open>clients\<close>.\<close>

fun collect_clients :: "store \<Rightarrow> (string \<times> string) list \<Rightarrow> client_basic list \<Rightarrow> client_basic list" where
  "collect_clients s [] clients = clients"
| "collect_clients s ((nm, filename) # items) clients =
     (case load_client_data s filename of
        Some d \<Rightarrow>
          collect_clients s items
            (clients @ [\<lparr>name = name d, service = service d, notes = notes d,
                         created_at = created_at d, updated_at = updated_at d\<rparr>])
      | None \<Rightarrow> collect_clients s items clients)"

definition list_clients :: "store \<Rightarrow> client_basic list \<times> store" where
  "list_clients s =
     (let clients = collect_clients s (DAList.impl_of (load_index s)) []
      in (sort_reverse created_at clients, s))"

definition delete_client :: "string \<Rightarrow> store \<Rightarrow> bool \<times> store" where
  "delete_client nm s =
     (let idx = load_index s in
      case DAList.lookup idx nm of
        None \<Rightarrow> (False, s)
      | Some filename \<Rightarrow>
          let s1 = remove_file filename s;
              s2 = save_index (DAList.delete nm idx) s1
          in (True, s2))"

definition get_client_count :: "store \<Rightarrow> nat \<times> store" where
  "get_client_count s = (length (DAList.impl_of (load_index s)), s)"

text \<open>The loop of \<^verbatim>\<open>search_clients\<close> over \<^verbatim>\<open>all_clients\<close>.\<close>

fun matching :: "string \<Rightarrow> client_basic list \<Rightarrow> client_basic list \<Rightarrow> client_basic list" where
  "matching query_lower [] matching_clients = matching_clients"
| "matching query_lower (client # all_clients) matching_clients =
     (if str_in query_lower (lower (name client)) \<or>
         str_in query_lower (lower (service client)) \<or>
         str_in query_lower (lower (notes client))
      then matching query_lower all_clients (matching_clients @ [client])
      else matching query_lower all_clients matching_clients)"

definition search_clients :: "string \<Rightarrow> store \<Rightarrow> client_basic list \<times> store" where
  "search_clients query s =
     (let (all_clients, s1) = list_clients s;
          query_lower = lower query
      in (matching query_lower all_clients [], s1))"

subsection \<open>The command shell\<close>

text \<open>
  One run of \<^verbatim>\<open>app.py\<close> invokes one operation of the manager. A request carries
  the arguments of the call and the clock readings the call makes.
\<close>

datatype op =
    Create string string string timestamp timestamp timestamp
  | Update string "string option" "string option" timestamp timestamp
  | Consult string timestamp
  | ListClients
  | Delete string
  | Search string
  | Count

fun apply_op :: "op \<Rightarrow> store \<Rightarrow> store" where
  "apply_op (Create nm sv nt t1 t2 t3) s = snd (create_client nm sv nt t1 t2 t3 s)"
| "apply_op (Update nm sv nt t1 t2) s = snd (update_client nm sv nt t1 t2 s)"
| "apply_op (Consult nm t) s = snd (consult_client nm t s)"
| "apply_op ListClients s = snd (list_clients s)"
| "apply_op (Delete nm) s = snd (delete_client nm s)"
| "apply_op (Search q) s = snd (search_clients q s)"
| "apply_op Count s = snd (get_client_count s)"

text \<open>The stores after each operation of a sequence, in order.\<close>

fun trace :: "op list \<Rightarrow> store \<Rightarrow> store list" where
  "trace [] s = []"
| "trace (x # xs) s = apply_op x s # trace xs (apply_op x s)"

section \<open>The specification's notions\<close>

subsection \<open>Filename derivation as the specification words it\<close>

text \<open>
  Keep only alphanumeric characters, spaces, hyphens and underscores; trim leading and
  trailing whitespace; replace internal spaces with underscores; lowercase the result;
  append \<^verbatim>\<open>.json\<close>.
\<close>

definition kept :: "char \<Rightarrow> bool" where
  "kept c = (isalnum c \<or> c = CHR '' '' \<or> c = CHR ''-'' \<or> c = CHR ''_'')"

fun trim_leading :: "string \<Rightarrow> string" where
  "trim_leading [] = []"
| "trim_leading (c # cs) = (if isspace c then trim_leading cs else c # cs)"

definition trim :: "string \<Rightarrow> string" where
  "trim s = rev (trim_leading (rev (trim_leading s)))"

definition space_to_underscore :: "char \<Rightarrow> char" where
  "space_to_underscore c = (if c = CHR '' '' then CHR ''_'' else c)"

text \<open>An internal space is one that is neither the first nor the last character.\<close>

fun replace_internal_spaces :: "string \<Rightarrow> string" where
  "replace_internal_spaces [] = []"
| "replace_internal_spaces [c] = [c]"
| "replace_internal_spaces (c # cs) = c # map space_to_underscore (butlast cs) @ [last cs]"

definition filename_spec :: "string \<Rightarrow> string" where
  "filename_spec n =
     map lower_char (replace_internal_spaces (trim (filter kept n))) @ ''.json''"

subsection \<open>Update requests\<close>

text \<open>A field of an update request that was provided and differs from the stored value.\<close>

definition differs :: "string option \<Rightarrow> string \<Rightarrow> bool" where
  "differs v stored = (case v of None \<Rightarrow> False | Some x \<Rightarrow> x \<noteq> stored)"

text \<open>The value a field holds after an update: the provided one, else the stored one.\<close>

definition provided_or :: "string option \<Rightarrow> string \<Rightarrow> string" where
  "provided_or v stored = (case v of None \<Rightarrow> stored | Some x \<Rightarrow> x)"

subsection \<open>Listing\<close>

text \<open>The basic fields of a document: everything but the history.\<close>

definition basic_fields :: "client_data \<Rightarrow> client_basic" where
  "basic_fields d =
     \<lparr>name = name d, service = service d, notes = notes d,
      created_at = created_at d, updated_at = updated_at d\<rparr>"

text \<open>
  One entry for every item of the index whose file loads, in the order of the index.
\<close>

definition listed :: "store \<Rightarrow> client_basic list" where
  "listed s =
     List.map_filter (\<lambda>(k, f). map_option basic_fields (load_client_data s f))
       (DAList.impl_of (index s))"

subsection \<open>Index and record consistency\<close>


text \<open>A file name that some entry of the index refers to.\<close>

definition filename_in_use :: "string \<Rightarrow> store \<Rightarrow> bool" where
  "filename_in_use f s = (f \<in> snd ` set (DAList.impl_of (index s)))"

text \<open>
  A request is free of collisions when it is not the creation of a new client whose
  derived file name is already in use by another client.
\<close>

fun collision_free :: "op \<Rightarrow> store \<Rightarrow> bool" where
  "collision_free (Create nm sv nt t1 t2 t3) s =
     (DAList.lookup (index s) nm \<noteq> None \<or> \<not> filename_in_use (generate_filename nm) s)"
| "collision_free _ s = True"


subsection \<open>Append-only history\<close>

text \<open>The record of client \<open>k\<close>: the document that the index entry of \<open>k\<close> loads.\<close>

definition record_of :: "store \<Rightarrow> string \<Rightarrow> client_data option" where
  "record_of s k =
     (case DAList.lookup (index s) k of None \<Rightarrow> None | Some f \<Rightarrow> load_client_data s f)"

text \<open>
  When client \<open>k\<close> has a record in \<open>s\<close> and in \<open>s'\<close>, the history in \<open>s\<close> is a
  prefix of the history in \<open>s'\<close>.
\<close>

definition history_preserved :: "string \<Rightarrow> store \<Rightarrow> store \<Rightarrow> bool" where
  "history_preserved k s s' =
     (case record_of s k of
        None \<Rightarrow> True
      | Some d \<Rightarrow> (case record_of s' k of None \<Rightarrow> True | Some d' \<Rightarrow> prefix (history d) (history d')))"

section \<open>Example stores\<close>

text \<open>
  Clock readings one microsecond apart, as \<^verbatim>\<open>isoformat\<close> prints them, for \<open>n\<close> from 0
  to 9.
\<close>

definition clock :: "nat \<Rightarrow> timestamp" where
  "clock n = ''2025-03-01T09:00:00.00000'' @ [char_of (48 + n)]"

definition store_ana :: store where
  "store_ana = apply_op (Create ''Ana'' ''Pintura'' '''' (clock 1) (clock 2) (clock 3)) empty_store"

text \<open>The file of Ana replaced by text that is not JSON.\<close>

definition store_unreadable :: store where
  "store_unreadable = store_ana\<lparr>files := (files store_ana)(''ana.json'' \<mapsto> Unparseable)\<rparr>"

text \<open>The file of Ana removed behind the back of the index.\<close>

definition store_missing_file :: store where
  "store_missing_file = store_ana\<lparr>files := Map.empty\<rparr>"



definition store_juan :: store where
  "store_juan =
     apply_op (Create ''Juan Perez'' ''Soldadura'' ''premium'' (clock 1) (clock 2) (clock 3))
       empty_store"


text \<open>\<^verbatim>\<open>a\<close> and \<^verbatim>\<open>A\<close> are two names with one derived file name, \<^verbatim>\<open>a.json\<close>.\<close>

definition colliding :: "op list" where
  "colliding =
     [Create ''a'' ''Pintura'' '''' (clock 1) (clock 2) (clock 3),
      Create ''A'' ''Soldadura'' '''' (clock 4) (clock 5) (clock 6),
      Create ''b'' ''Pintura'' '''' (clock 7) (clock 8) (clock 9)]"

section \<open>Properties\<close>

subsection \<open>Strings\<close>

lemma isspace_space: "isspace (CHR '' '')"
  by (simp add: isspace_def)

lemma trim_leading_dropWhile: "trim_leading s = dropWhile isspace s"
  by (induction s) auto

lemma trim_strip: "trim s = strip s"
  by (simp add: trim_def strip_def trim_leading_dropWhile)

lemma dropWhile_hd: "dropWhile P xs \<noteq> [] \<Longrightarrow> \<not> P (hd (dropWhile P xs))"
  by (induction xs) auto

lemma dropWhile_last: "dropWhile P xs \<noteq> [] \<Longrightarrow> last (dropWhile P xs) = last xs"
  by (induction xs) auto

lemma strip_hd: "strip s \<noteq> [] \<Longrightarrow> \<not> isspace (hd (strip s))"
proof -
  assume ne: "strip s \<noteq> []"
  let ?a = "dropWhile isspace s"
  let ?b = "dropWhile isspace (rev ?a)"
  have b: "?b \<noteq> []" using ne by (simp add: strip_def)
  have a: "?a \<noteq> []"
    using b by (metis dropWhile.simps(1) rev.simps(1))
  have "hd (strip s) = last ?b" using b by (simp add: strip_def hd_rev)
  also have "last ?b = last (rev ?a)" using b by (rule dropWhile_last)
  also have "\<dots> = hd ?a" using a by (simp add: last_rev)
  finally have "hd (strip s) = hd ?a" .
  then show ?thesis using dropWhile_hd [OF a] by simp
qed

lemma strip_last: "strip s \<noteq> [] \<Longrightarrow> \<not> isspace (last (strip s))"
proof -
  assume ne: "strip s \<noteq> []"
  let ?b = "dropWhile isspace (rev (dropWhile isspace s))"
  have b: "?b \<noteq> []" using ne by (simp add: strip_def)
  have "last (strip s) = hd ?b" using b by (simp add: strip_def last_rev)
  then show ?thesis using dropWhile_hd [OF b] by simp
qed

lemma replace_space_map: "replace (CHR '' '') (CHR ''_'') s = map space_to_underscore s"
  by (simp add: replace_def space_to_underscore_def)

lemma replace_internal_eq:
  assumes "s \<noteq> [] \<Longrightarrow> hd s \<noteq> CHR '' '' \<and> last s \<noteq> CHR '' ''"
  shows "replace_internal_spaces s = replace (CHR '' '') (CHR ''_'') s"
proof (cases s rule: replace_internal_spaces.cases)
  case 1
  then show ?thesis by (simp add: replace_space_map)
next
  case (2 c)
  then show ?thesis using assms by (simp add: replace_space_map space_to_underscore_def)
next
  case (3 c d ds)
  have c: "space_to_underscore c = c"
    and l: "space_to_underscore (last (d # ds)) = last (d # ds)"
    using assms 3 by (simp_all add: space_to_underscore_def)
  have "map space_to_underscore (d # ds) =
        map space_to_underscore (butlast (d # ds) @ [last (d # ds)])"
    by (simp only: append_butlast_last_id [OF list.distinct(2)])
  also have "\<dots> = map space_to_underscore (butlast (d # ds)) @ [last (d # ds)]"
    using l by simp
  finally have m: "map space_to_underscore (d # ds) =
      map space_to_underscore (butlast (d # ds)) @ [last (d # ds)]" .
  have "replace_internal_spaces s =
        c # map space_to_underscore (butlast (d # ds)) @ [last (d # ds)]"
    using 3 by simp
  also have "\<dots> = space_to_underscore c # map space_to_underscore (d # ds)"
    using c m by simp
  also have "\<dots> = replace (CHR '' '') (CHR ''_'') s"
    using 3 by (simp add: replace_space_map)
  finally show ?thesis .
qed

lemma str_in_sublist: "str_in q s \<longleftrightarrow> sublist q s"
  by (induction s) (simp_all add: sublist_Cons_right)

subsection \<open>Sorting in reverse\<close>

lemma sort_reverse_mset: "mset (sort_reverse key xs) = mset xs"
  by (simp add: sort_reverse_def)

lemma sort_reverse_sorted: "sorted_wrt (\<lambda>a b. key b \<le> key a) (sort_reverse key xs)"
proof -
  have "sorted (map key (sort_key key (rev xs)))" by (rule sorted_sort_key)
  then have "sorted_wrt (\<lambda>a b. key a \<le> key b) (sort_key key (rev xs))"
    by (simp add: sorted_map)
  then show ?thesis by (simp add: sort_reverse_def sorted_wrt_rev)
qed

lemma sort_reverse_stable:
  "filter (\<lambda>x. key x = k) (sort_reverse key xs) = filter (\<lambda>x. key x = k) xs"
proof -
  have "filter (\<lambda>x. key x = k) (sort_reverse key xs) =
        rev (filter (\<lambda>x. key x = k) (sort_key key (rev xs)))"
    by (simp add: sort_reverse_def rev_filter)
  also have "\<dots> = rev (filter (\<lambda>x. key x = k) (rev xs))"
    by (simp only: sort_key_stable)
  also have "\<dots> = filter (\<lambda>x. key x = k) xs"
    by (simp add: rev_filter)
  finally show ?thesis .
qed

subsection \<open>The index as a dictionary\<close>

lemma alist_update_new: "map_of al k = None \<Longrightarrow> AList.update k v al = al @ [(k, v)]"
  by (induction al) (auto split: if_splits)

lemma alist_length_delete:
  "distinct (map fst al) \<Longrightarrow> map_of al k = Some v \<Longrightarrow>
   Suc (length (AList.delete k al)) = length al"
proof (induction al)
  case Nil
  then show ?case by simp
next
  case (Cons p ps)
  show ?case
  proof (cases "fst p = k")
    case True
    then have "k \<notin> fst ` set ps" using Cons.prems(1) by auto
    then have "AList.delete k ps = ps" by simp
    then show ?thesis using True by (cases p) simp
  next
    case False
    then show ?thesis using Cons by (cases p) (auto split: if_splits)
  qed
qed

lemma impl_of_update_new:
  "DAList.lookup idx k = None \<Longrightarrow>
   DAList.impl_of (DAList.update k v idx) = DAList.impl_of idx @ [(k, v)]"
  by transfer (simp add: alist_update_new)

lemma lookup_impl_of:
  "DAList.lookup idx k = Some v \<longleftrightarrow> (k, v) \<in> set (DAList.impl_of idx)"
  by transfer simp

lemma lookup_None_iff:
  "DAList.lookup idx k = None \<longleftrightarrow> k \<notin> fst ` set (DAList.impl_of idx)"
  by transfer (simp add: map_of_eq_None_iff)

lemma length_delete_present:
  "DAList.lookup idx k = Some v \<Longrightarrow>
   Suc (length (DAList.impl_of (DAList.delete k idx))) = length (DAList.impl_of idx)"
  by transfer (simp add: alist_length_delete)

subsection \<open>The operations, case by case\<close>

lemma load_opens: "load_client_data s f = Some d \<Longrightarrow> opens_for_writing s f"
  by (auto simp: load_client_data_def opens_for_writing_def split: option.splits)

lemma save_loaded:
  "load_client_data s f = Some d \<Longrightarrow>
   save_client_data f d' s = Inr (s\<lparr>files := (files s)(f \<mapsto> Document d')\<rparr>)"
  by (simp add: save_client_data_def load_opens)

lemma create_present:
  "DAList.lookup (index s) nm \<noteq> None \<Longrightarrow> create_client nm sv nt t1 t2 t3 s = (Inr False, s)"
  by (simp add: create_client_def load_index_def)

lemma create_refused:
  "DAList.lookup (index s) nm = None \<Longrightarrow> \<not> opens_for_writing s (generate_filename nm) \<Longrightarrow>
   create_client nm sv nt t1 t2 t3 s = (Inl OSError, s)"
  by (simp add: create_client_def load_index_def save_client_data_def Let_def)

lemma create_absent:
  "DAList.lookup (index s) nm = None \<Longrightarrow> opens_for_writing s (generate_filename nm) \<Longrightarrow>
   create_client nm sv nt t1 t2 t3 s =
     (Inr True, s\<lparr>index := DAList.update nm (generate_filename nm) (index s),
              files := (files s)(generate_filename nm \<mapsto> Document
                \<lparr>name = nm, service = sv, notes = nt, created_at = t1, updated_at = t2,
                 history = [Created sv nt t3]\<rparr>)\<rparr>)"
  by (simp add: create_client_def load_index_def save_index_def save_client_data_def Let_def)

lemma create_created_iff:
  "fst (create_client nm sv nt t1 t2 t3 s) = Inr True \<longleftrightarrow>
     DAList.lookup (index s) nm = None \<and> opens_for_writing s (generate_filename nm)"
proof (cases "DAList.lookup (index s) nm")
  case None
  then show ?thesis
    by (cases "opens_for_writing s (generate_filename nm)")
      (simp_all add: create_absent create_refused)
next
  case (Some f)
  then show ?thesis by (simp add: create_present)
qed

lemma create_unchanged:
  "\<not> (DAList.lookup (index s) nm = None \<and> opens_for_writing s (generate_filename nm)) \<Longrightarrow>
   snd (create_client nm sv nt t1 t2 t3 s) = s"
  by (cases "DAList.lookup (index s) nm") (auto simp: create_present create_refused)

lemma accepted_opens: "accepts s f \<Longrightarrow> opens_for_writing s f"
  by (simp add: opens_for_writing_def)

lemma create_fresh:
  assumes "k \<notin> fst ` set (DAList.impl_of (index s))"
    and "opens_for_writing s (generate_filename k)"
  shows "DAList.impl_of (index (snd (create_client k sv nt ta tb tc s))) =
           DAList.impl_of (index s) @ [(k, generate_filename k)]"
    and "files (snd (create_client k sv nt ta tb tc s)) =
           (files s)(generate_filename k \<mapsto> Document
             \<lparr>name = k, service = sv, notes = nt, created_at = ta, updated_at = tb,
              history = [Created sv nt tc]\<rparr>)"
    and "accepts (snd (create_client k sv nt ta tb tc s)) = accepts s"
proof -
  have a: "DAList.lookup (index s) k = None" using assms(1) by (simp add: lookup_None_iff)
  show "DAList.impl_of (index (snd (create_client k sv nt ta tb tc s))) =
           DAList.impl_of (index s) @ [(k, generate_filename k)]"
    by (simp add: create_absent [OF a assms(2)] impl_of_update_new [OF a])
  show "files (snd (create_client k sv nt ta tb tc s)) =
           (files s)(generate_filename k \<mapsto> Document
             \<lparr>name = k, service = sv, notes = nt, created_at = ta, updated_at = tb,
              history = [Created sv nt tc]\<rparr>)"
    by (simp add: create_absent [OF a assms(2)])
  show "accepts (snd (create_client k sv nt ta tb tc s)) = accepts s"
    by (simp add: create_absent [OF a assms(2)])
qed

lemma update_absent:
  "DAList.lookup (index s) nm = None \<Longrightarrow> update_client nm sv nt t1 t2 s = (Inr False, s)"
  by (simp add: update_client_def load_index_def)

lemma update_unreadable:
  "DAList.lookup (index s) nm = Some f \<Longrightarrow> load_client_data s f = None \<Longrightarrow>
   update_client nm sv nt t1 t2 s = (Inr False, s)"
  by (simp add: update_client_def load_index_def)

lemma update_changed:
  assumes "DAList.lookup (index s) nm = Some f" and "load_client_data s f = Some d"
    and "differs sv (service d) \<or> differs nt (notes d)"
  shows "update_client nm sv nt t1 t2 s =
    (Inr True, s\<lparr>files := (files s)(f \<mapsto> Document
        (d\<lparr>service := provided_or sv (service d), notes := provided_or nt (notes d),
           updated_at := t1, history := history d @ [Updated t2 sv nt]\<rparr>))\<rparr>)"
proof (cases sv)
  case None
  then show ?thesis
    using assms
    by (cases nt) (simp_all add: update_client_def load_index_def differs_def provided_or_def
        save_loaded)
next
  case (Some v)
  then show ?thesis
    using assms
    by (cases nt) (auto simp add: update_client_def load_index_def differs_def provided_or_def
        save_loaded)
qed

lemma update_same:
  assumes "DAList.lookup (index s) nm = Some f" and "load_client_data s f = Some d"
    and "\<not> differs sv (service d)" and "\<not> differs nt (notes d)"
  shows "update_client nm sv nt t1 t2 s = (Inr True, s)"
  using assms
  by (cases sv; cases nt) (simp_all add: update_client_def load_index_def differs_def)

lemma update_fails_iff:
  "fst (update_client nm sv nt t1 t2 s) = Inr False \<longleftrightarrow>
     (case DAList.lookup (index s) nm of None \<Rightarrow> True | Some f \<Rightarrow> load_client_data s f = None)"
proof (cases "DAList.lookup (index s) nm")
  case None
  then show ?thesis by (simp add: update_absent)
next
  case (Some f)
  show ?thesis
  proof (cases "load_client_data s f")
    case None
    then show ?thesis using Some by (simp add: update_unreadable)
  next
    case (Some d)
    show ?thesis
    proof (cases "differs sv (service d) \<or> differs nt (notes d)")
      case True
      then show ?thesis using update_changed [OF \<open>DAList.lookup (index s) nm = Some f\<close> Some True]
        by (simp add: \<open>DAList.lookup (index s) nm = Some f\<close> Some)
    next
      case False
      then show ?thesis using update_same [OF \<open>DAList.lookup (index s) nm = Some f\<close> Some]
        by (simp add: \<open>DAList.lookup (index s) nm = Some f\<close> Some)
    qed
  qed
qed

lemma consult_absent:
  "DAList.lookup (index s) nm = None \<Longrightarrow> consult_client nm t s = (Inr None, s)"
  by (simp add: consult_client_def load_index_def)

lemma consult_unreadable:
  "DAList.lookup (index s) nm = Some f \<Longrightarrow> load_client_data s f = None \<Longrightarrow>
   consult_client nm t s = (Inr None, s)"
  by (simp add: consult_client_def load_index_def)

lemma consult_found:
  "DAList.lookup (index s) nm = Some f \<Longrightarrow> load_client_data s f = Some d \<Longrightarrow>
   consult_client nm t s =
     (Inr (Some (d\<lparr>history := history d @ [Consulted t]\<rparr>)),
      s\<lparr>files := (files s)(f \<mapsto> Document (d\<lparr>history := history d @ [Consulted t]\<rparr>))\<rparr>)"
  by (simp add: consult_client_def load_index_def save_loaded Let_def)

lemma delete_absent:
  "DAList.lookup (index s) nm = None \<Longrightarrow> delete_client nm s = (False, s)"
  by (simp add: delete_client_def load_index_def)

lemma delete_present:
  "DAList.lookup (index s) nm = Some f \<Longrightarrow>
   delete_client nm s =
     (True, s\<lparr>index := DAList.delete nm (index s), files := (files s)(f := None)\<rparr>)"
  by (simp add: delete_client_def load_index_def save_index_def remove_file_def Let_def)

lemma list_clients_store: "snd (list_clients s) = s"
  by (simp add: list_clients_def)

lemma search_clients_store: "snd (search_clients q s) = s"
  by (simp add: search_clients_def list_clients_def)

lemma count_store: "snd (get_client_count s) = s"
  by (simp add: get_client_count_def)

lemma load_files_upd:
  "load_client_data (s\<lparr>files := (files s)(f \<mapsto> Document d)\<rparr>) g =
     (if g = f then Some d else load_client_data s g)"
  by (simp add: load_client_data_def)

lemma load_index_upd [simp]:
  "load_client_data (s\<lparr>index := idx\<rparr>) g = load_client_data s g"
  by (simp add: load_client_data_def)

lemma collect_clients_listed:
  "collect_clients s items acc =
     acc @ List.map_filter (\<lambda>(k, f). map_option basic_fields (load_client_data s f)) items"
proof (induction items arbitrary: acc)
  case Nil
  then show ?case by (simp add: map_filter_simps)
next
  case (Cons p ps)
  then show ?case
    by (cases p) (simp add: map_filter_simps basic_fields_def split: option.splits)
qed

lemma list_clients_listed: "fst (list_clients s) = sort_reverse created_at (listed s)"
  by (simp add: list_clients_def listed_def collect_clients_listed load_index_def)

lemma matching_filter:
  "matching q cs acc =
     acc @ filter (\<lambda>c. str_in q (lower (name c)) \<or> str_in q (lower (service c)) \<or>
                         str_in q (lower (notes c))) cs"
  by (induction cs arbitrary: acc) simp_all

subsection \<open>Filename derivation\<close>

text \<open>
  C9. \<^const>\<open>generate_filename\<close> is a function of the name alone (it reads neither
  the store nor the clock, so two derivations from one name give one string), and for
  every name it computes what the specification describes: the characters that are
  alphanumeric, a space, a hyphen or an underscore are kept, leading and trailing
  whitespace is trimmed, the internal spaces become underscores, the result is
  lowercased and \<^verbatim>\<open>.json\<close> is appended.
\<close>

theorem generate_filename_spec: "generate_filename n = filename_spec n"
proof -
  let ?s = "strip (filter (\<lambda>c. isalnum c \<or> c \<in> set '' -_'') n)"
  have k: "(\<lambda>c. isalnum c \<or> c \<in> set '' -_'') = kept"
    by (auto simp: kept_def fun_eq_iff)
  have "?s \<noteq> [] \<Longrightarrow> hd ?s \<noteq> CHR '' '' \<and> last ?s \<noteq> CHR '' ''"
    using strip_hd [of "filter (\<lambda>c. isalnum c \<or> c \<in> set '' -_'') n"]
      strip_last [of "filter (\<lambda>c. isalnum c \<or> c \<in> set '' -_'') n"] isspace_space
    by auto
  then have "replace_internal_spaces ?s = replace (CHR '' '') (CHR ''_'') ?s"
    by (rule replace_internal_eq)
  then show ?thesis
    unfolding generate_filename_def filename_spec_def Let_def lower_def trim_strip k
    by simp
qed

text \<open>Two names of the specification's examples, derived.\<close>

theorem generate_filename_spec_witness:
  "generate_filename ''Juan Perez'' = ''juan_perez.json'' \<and>
   generate_filename ''  Ana M. (2) '' = ''ana_m_2.json''"
proof -
  have "filename_spec ''Juan Perez'' = ''juan_perez.json''" by code_simp
  moreover have "filename_spec ''  Ana M. (2) '' = ''ana_m_2.json''" by code_simp
  ultimately show ?thesis by (simp only: generate_filename_spec)
qed

subsection \<open>Create\<close>




subsection \<open>Update\<close>



subsection \<open>Consult\<close>

text \<open>
  C4. \<^const>\<open>consult_client\<close> returns \<^const>\<open>None\<close> and changes nothing when the name
  is not a key of the index, and when its file does not load. Otherwise it appends
  one \<^verbatim>\<open>consulted\<close> entry with the clock reading to the history, writes the document
  back and returns it, history included; name, service, notes, \<^verbatim>\<open>created_at\<close> and
  \<^verbatim>\<open>updated_at\<close> are as before. A second consultation appends a second entry.
\<close>

theorem consult_contract:
  "(DAList.lookup (index s) nm = None \<longrightarrow> consult_client nm ta s = (Inr None, s)) \<and>
   (DAList.lookup (index s) nm = Some f \<and> load_client_data s f = None \<longrightarrow>
      consult_client nm ta s = (Inr None, s)) \<and>
   (DAList.lookup (index s) nm = Some f \<and> load_client_data s f = Some d \<longrightarrow>
      consult_client nm ta s =
        (Inr (Some (d\<lparr>history := history d @ [Consulted ta]\<rparr>)),
         s\<lparr>files := (files s)(f \<mapsto> Document (d\<lparr>history := history d @ [Consulted ta]\<rparr>))\<rparr>) \<and>
      consult_client nm tb (snd (consult_client nm ta s)) =
        (Inr (Some (d\<lparr>history := history d @ [Consulted ta, Consulted tb]\<rparr>)),
         s\<lparr>files := (files s)(f \<mapsto> Document
           (d\<lparr>history := history d @ [Consulted ta, Consulted tb]\<rparr>))\<rparr>))"
proof (intro conjI impI)
  assume "DAList.lookup (index s) nm = None"
  then show "consult_client nm ta s = (Inr None, s)" by (rule consult_absent)
next
  assume "DAList.lookup (index s) nm = Some f \<and> load_client_data s f = None"
  then show "consult_client nm ta s = (Inr None, s)" by (simp add: consult_unreadable)
next
  assume a: "DAList.lookup (index s) nm = Some f \<and> load_client_data s f = Some d"
  then have l: "DAList.lookup (index s) nm = Some f" and d: "load_client_data s f = Some d"
    by simp_all
  let ?d1 = "d\<lparr>history := history d @ [Consulted ta]\<rparr>"
  let ?s1 = "s\<lparr>files := (files s)(f \<mapsto> Document ?d1)\<rparr>"
  show first: "consult_client nm ta s = (Inr (Some ?d1), ?s1)" by (rule consult_found [OF l d])
  have l1: "DAList.lookup (index ?s1) nm = Some f" using l by simp
  have d1: "load_client_data ?s1 f = Some ?d1" by (simp add: load_files_upd)
  show "consult_client nm tb (snd (consult_client nm ta s)) =
        (Inr (Some (d\<lparr>history := history d @ [Consulted ta, Consulted tb]\<rparr>)),
         s\<lparr>files := (files s)(f \<mapsto> Document
           (d\<lparr>history := history d @ [Consulted ta, Consulted tb]\<rparr>))\<rparr>)"
    unfolding first snd_conv consult_found [OF l1 d1] by simp
qed

theorem consult_contract_witness:
  "consult_client ''Ana'' (clock 4) empty_store = (Inr None, empty_store) \<and>
   consult_client ''Ana'' (clock 4) store_unreadable = (Inr None, store_unreadable) \<and>
   fst (consult_client ''Ana'' (clock 5) (snd (consult_client ''Ana'' (clock 4) store_ana))) =
     Inr (Some \<lparr>name = ''Ana'', service = ''Pintura'', notes = '''', created_at = clock 1,
           updated_at = clock 2,
           history = [Created ''Pintura'' '''' (clock 3), Consulted (clock 4), Consulted (clock 5)]\<rparr>)"
proof -
  let ?d = "\<lparr>name = ''Ana'', service = ''Pintura'', notes = '''', created_at = clock 1,
             updated_at = clock 2, history = [Created ''Pintura'' '''' (clock 3)]\<rparr>"
  have absent: "DAList.lookup (index empty_store) ''Ana'' = None" by code_simp
  have entry: "DAList.lookup (index store_ana) ''Ana'' = Some ''ana.json''" by code_simp
  have entry': "DAList.lookup (index store_unreadable) ''Ana'' = Some ''ana.json''" by code_simp
  have unreadable: "load_client_data store_unreadable ''ana.json'' = None" by code_simp
  have loaded: "load_client_data store_ana ''ana.json'' = Some ?d" by code_simp
  note a = consult_contract [where s = empty_store and nm = "''Ana''" and ta = "clock 4"
      and tb = "clock 5" and f = "[]" and d = ?d, THEN conjunct1, rule_format, OF absent]
  note b = consult_contract [where s = store_unreadable and nm = "''Ana''" and ta = "clock 4"
      and tb = "clock 5" and f = "''ana.json''" and d = ?d,
      THEN conjunct2, THEN conjunct1, rule_format, OF conjI [OF entry' unreadable]]
  note c = consult_contract [where s = store_ana and nm = "''Ana''" and ta = "clock 4"
      and tb = "clock 5" and f = "''ana.json''" and d = ?d,
      THEN conjunct2, THEN conjunct2, rule_format, OF conjI [OF entry loaded], THEN conjunct2]
  have c': "fst (consult_client ''Ana'' (clock 5) (snd (consult_client ''Ana'' (clock 4) store_ana))) =
     Inr (Some \<lparr>name = ''Ana'', service = ''Pintura'', notes = '''', created_at = clock 1,
           updated_at = clock 2,
           history = [Created ''Pintura'' '''' (clock 3), Consulted (clock 4), Consulted (clock 5)]\<rparr>)"
    unfolding c by simp
  from a b c' show ?thesis by blast
qed

subsection \<open>Delete\<close>

text \<open>
  C5. \<^const>\<open>delete_client\<close> returns \<^const>\<open>False\<close> exactly when the name is not a key
  of the index, and then changes nothing. Otherwise it returns \<^const>\<open>True\<close>, whether
  the file exists or not; afterwards the file is absent, the name is no key of the
  index and the other entries are as before, the count is one less, and
  \<^const>\<open>consult_client\<close> and \<^const>\<open>update_client\<close> on the name report that it is not
  found.
\<close>

theorem delete_contract:
  "fst (delete_client nm s) = (DAList.lookup (index s) nm \<noteq> None) \<and>
   (DAList.lookup (index s) nm = None \<longrightarrow> delete_client nm s = (False, s)) \<and>
   (DAList.lookup (index s) nm = Some f \<longrightarrow>
      delete_client nm s =
        (True, s\<lparr>index := DAList.delete nm (index s), files := (files s)(f := None)\<rparr>) \<and>
      DAList.lookup (index (snd (delete_client nm s))) = (DAList.lookup (index s))(nm := None) \<and>
      fst (get_client_count (snd (delete_client nm s))) + 1 = fst (get_client_count s) \<and>
      fst (consult_client nm ta (snd (delete_client nm s))) = Inr None \<and>
      fst (update_client nm sv nt ua ub (snd (delete_client nm s))) = Inr False)"
proof (intro conjI impI)
  show "fst (delete_client nm s) = (DAList.lookup (index s) nm \<noteq> None)"
    by (cases "DAList.lookup (index s) nm") (simp_all add: delete_absent delete_present)
next
  assume "DAList.lookup (index s) nm = None"
  then show "delete_client nm s = (False, s)" by (rule delete_absent)
next
  assume l: "DAList.lookup (index s) nm = Some f"
  let ?s' = "s\<lparr>index := DAList.delete nm (index s), files := (files s)(f := None)\<rparr>"
  show eq: "delete_client nm s = (True, ?s')" by (rule delete_present [OF l])
  show "DAList.lookup (index (snd (delete_client nm s))) = (DAList.lookup (index s))(nm := None)"
    by (simp add: eq)
  show "fst (get_client_count (snd (delete_client nm s))) + 1 = fst (get_client_count s)"
    using length_delete_present [OF l] by (simp add: eq get_client_count_def load_index_def)
  have gone: "DAList.lookup (index (snd (delete_client nm s))) nm = None" by (simp add: eq)
  show "fst (consult_client nm ta (snd (delete_client nm s))) = Inr None"
    by (simp add: consult_absent [OF gone])
  show "fst (update_client nm sv nt ua ub (snd (delete_client nm s))) = Inr False"
    by (simp add: update_absent [OF gone])
qed

theorem delete_contract_witness:
  "delete_client ''Ana'' empty_store = (False, empty_store) \<and>
   fst (delete_client ''Ana'' store_ana) = True \<and>
   files (snd (delete_client ''Ana'' store_ana)) ''ana.json'' = None \<and>
   fst (get_client_count (snd (delete_client ''Ana'' store_ana))) + 1 =
     fst (get_client_count store_ana) \<and>
   fst (consult_client ''Ana'' (clock 4) (snd (delete_client ''Ana'' store_ana))) = Inr None \<and>
   fst (update_client ''Ana'' None (Some ''VIP'') (clock 4) (clock 5)
         (snd (delete_client ''Ana'' store_ana))) = Inr False \<and>
   fst (delete_client ''Ana'' store_missing_file) = True"
proof -
  have absent: "DAList.lookup (index empty_store) ''Ana'' = None" by code_simp
  have entry: "DAList.lookup (index store_ana) ''Ana'' = Some ''ana.json''" by code_simp
  have entry': "DAList.lookup (index store_missing_file) ''Ana'' = Some ''ana.json''"
    by code_simp
  note a = delete_contract [where s = empty_store and nm = "''Ana''" and f = "[]"
      and ta = "clock 4" and sv = None and nt = "Some ''VIP''" and ua = "clock 4"
      and ub = "clock 5", THEN conjunct2, THEN conjunct1, rule_format, OF absent]
  note b = delete_contract [where s = store_ana and nm = "''Ana''" and f = "''ana.json''"
      and ta = "clock 4" and sv = None and nt = "Some ''VIP''" and ua = "clock 4"
      and ub = "clock 5", THEN conjunct2, THEN conjunct2, rule_format, OF entry]
  note c = delete_contract [where s = store_missing_file and nm = "''Ana''"
      and f = "''ana.json''" and ta = "clock 4" and sv = None and nt = "Some ''VIP''"
      and ua = "clock 4" and ub = "clock 5", THEN conjunct2, THEN conjunct2, rule_format,
      OF entry', THEN conjunct1]
  have b1: "fst (delete_client ''Ana'' store_ana) = True"
    and b2: "files (snd (delete_client ''Ana'' store_ana)) ''ana.json'' = None"
    by (simp_all add: b [THEN conjunct1])
  have c1: "fst (delete_client ''Ana'' store_missing_file) = True"
    by (simp add: c)
  from a b1 b2 b c1 show ?thesis by blast
qed

subsection \<open>Failure leaves the store as it was\<close>

text \<open>
  C10. When \<^const>\<open>create_client\<close>, \<^const>\<open>update_client\<close> or \<^const>\<open>delete_client\<close>
  returns \<^const>\<open>False\<close>, or \<^const>\<open>consult_client\<close> returns \<^const>\<open>None\<close>, the store
  after the call is the store before it: no file is written or removed and the
  index is the same.
\<close>

theorem failure_atomic:
  "(fst (create_client nm sv nt ta tb tc s) = Inr False \<longrightarrow>
      snd (create_client nm sv nt ta tb tc s) = s) \<and>
   (fst (update_client nm svo nto ua ub s) = Inr False \<longrightarrow>
      snd (update_client nm svo nto ua ub s) = s) \<and>
   (fst (consult_client nm t s) = Inr None \<longrightarrow> snd (consult_client nm t s) = s) \<and>
   (fst (delete_client nm s) = False \<longrightarrow> snd (delete_client nm s) = s)"
proof (intro conjI impI)
  assume "fst (create_client nm sv nt ta tb tc s) = Inr False"
  then show "snd (create_client nm sv nt ta tb tc s) = s"
    by (cases "DAList.lookup (index s) nm = None \<and> opens_for_writing s (generate_filename nm)")
      (simp_all add: create_absent create_unchanged)
next
  assume "fst (update_client nm svo nto ua ub s) = Inr False"
  then show "snd (update_client nm svo nto ua ub s) = s"
    unfolding update_fails_iff
    by (auto simp add: update_absent update_unreadable split: option.splits)
next
  assume n: "fst (consult_client nm t s) = Inr None"
  show "snd (consult_client nm t s) = s"
  proof (cases "DAList.lookup (index s) nm")
    case None
    then show ?thesis by (simp add: consult_absent)
  next
    case (Some f)
    then show ?thesis
      using n by (cases "load_client_data s f") (simp_all add: consult_unreadable consult_found)
  qed
next
  assume "fst (delete_client nm s) = False"
  then show "snd (delete_client nm s) = s"
    by (cases "DAList.lookup (index s) nm") (simp_all add: delete_absent delete_present)
qed

theorem failure_atomic_witness:
  "fst (create_client ''Ana'' ''Soldadura'' '''' (clock 4) (clock 5) (clock 6) store_ana) = Inr False \<and>
   snd (create_client ''Ana'' ''Soldadura'' '''' (clock 4) (clock 5) (clock 6) store_ana) = store_ana \<and>
   fst (update_client ''Ana'' None (Some ''VIP'') (clock 4) (clock 5) store_unreadable) = Inr False \<and>
   snd (update_client ''Ana'' None (Some ''VIP'') (clock 4) (clock 5) store_unreadable) =
     store_unreadable \<and>
   fst (consult_client ''Ana'' (clock 4) store_unreadable) = Inr None \<and>
   snd (consult_client ''Ana'' (clock 4) store_unreadable) = store_unreadable \<and>
   fst (delete_client ''Beto'' store_ana) = False \<and>
   snd (delete_client ''Beto'' store_ana) = store_ana"
proof -
  have a: "fst (create_client ''Ana'' ''Soldadura'' '''' (clock 4) (clock 5) (clock 6) store_ana) = Inr False"
    by code_simp
  have b: "fst (update_client ''Ana'' None (Some ''VIP'') (clock 4) (clock 5) store_unreadable) = Inr False"
    by code_simp
  have c: "fst (consult_client ''Ana'' (clock 4) store_unreadable) = Inr None"
    by code_simp
  have d: "fst (delete_client ''Beto'' store_ana) = False"
    by code_simp
  note r = failure_atomic [where sv = "''Soldadura''" and nt = "''''" and ta = "clock 4"
      and tb = "clock 5" and tc = "clock 6" and svo = None and nto = "Some ''VIP''"
      and ua = "clock 4" and ub = "clock 5" and t = "clock 4"]
  note ra = r [where s = store_ana and nm = "''Ana''", THEN conjunct1, rule_format, OF a]
  note rb = r [where s = store_unreadable and nm = "''Ana''", THEN conjunct2, THEN conjunct1,
      rule_format, OF b]
  note rc = r [where s = store_unreadable and nm = "''Ana''", THEN conjunct2, THEN conjunct2,
      THEN conjunct1, rule_format, OF c]
  note rd = r [where s = store_ana and nm = "''Beto''", THEN conjunct2, THEN conjunct2,
      THEN conjunct2, rule_format, OF d]
  from a b c d ra rb rc rd show ?thesis by blast
qed

subsection \<open>List\<close>

text \<open>
  C6 (as amended). \<^const>\<open>list_clients\<close> changes nothing. Its result has one entry,
  the basic fields without the history, for every item of the index whose file loads
  and none for the others; it is in descending order of \<^verbatim>\<open>created_at\<close>; and the
  entries with one and the same \<^verbatim>\<open>created_at\<close> stand in the order of the index. For
  three clients created in the order \<open>a\<close>, \<open>b\<close>, \<open>c\<close> in the empty store, with
  increasing \<^verbatim>\<open>created_at\<close> and with pairwise different derived file names, the result
  is \<open>c\<close>, \<open>b\<close>, \<open>a\<close>.
\<close>

theorem list_contract:
  "snd (list_clients s) = s \<and>
   mset (fst (list_clients s)) = mset (listed s) \<and>
   sorted_wrt (\<lambda>x y. created_at y \<le> created_at x) (fst (list_clients s)) \<and>
   filter (\<lambda>c. created_at c = t) (fst (list_clients s)) =
     filter (\<lambda>c. created_at c = t) (listed s) \<and>
   (generate_filename a \<noteq> generate_filename b \<and> generate_filename a \<noteq> generate_filename c \<and>
    generate_filename b \<noteq> generate_filename c \<and> ta < tb \<and> tb < tc \<longrightarrow>
      fst (list_clients (last (trace
        [Create a sa na ta ta' ta'', Create b sb nb tb tb' tb'', Create c sc nc tc tc' tc'']
        empty_store))) =
        [\<lparr>name = c, service = sc, notes = nc, created_at = tc, updated_at = tc'\<rparr>,
         \<lparr>name = b, service = sb, notes = nb, created_at = tb, updated_at = tb'\<rparr>,
         \<lparr>name = a, service = sa, notes = na, created_at = ta, updated_at = ta'\<rparr>])"
proof (intro conjI impI)
  show "snd (list_clients s) = s" by (rule list_clients_store)
  show "mset (fst (list_clients s)) = mset (listed s)"
    by (simp add: list_clients_listed sort_reverse_mset)
  show "sorted_wrt (\<lambda>x y. created_at y \<le> created_at x) (fst (list_clients s))"
    unfolding list_clients_listed by (rule sort_reverse_sorted)
  show "filter (\<lambda>c. created_at c = t) (fst (list_clients s)) =
     filter (\<lambda>c. created_at c = t) (listed s)"
    unfolding list_clients_listed by (rule sort_reverse_stable)
next
  assume h: "generate_filename a \<noteq> generate_filename b \<and>
    generate_filename a \<noteq> generate_filename c \<and>
    generate_filename b \<noteq> generate_filename c \<and> ta < tb \<and> tb < tc"
  then have names: "a \<noteq> b" "a \<noteq> c" "b \<noteq> c" by auto
  have ord: "\<not> tb \<le> ta" "\<not> tc \<le> tb" "\<not> tc \<le> ta" using h by auto
  let ?da = "\<lparr>name = a, service = sa, notes = na, created_at = ta, updated_at = ta',
              history = [Created sa na ta'']\<rparr>"
  let ?db = "\<lparr>name = b, service = sb, notes = nb, created_at = tb, updated_at = tb',
              history = [Created sb nb tb'']\<rparr>"
  let ?dc = "\<lparr>name = c, service = sc, notes = nc, created_at = tc, updated_at = tc',
              history = [Created sc nc tc'']\<rparr>"
  define s1 where "s1 = snd (create_client a sa na ta ta' ta'' empty_store)"
  define s2 where "s2 = snd (create_client b sb nb tb tb' tb'' s1)"
  define s3 where "s3 = snd (create_client c sc nc tc tc' tc'' s2)"
  have i0: "DAList.impl_of (index empty_store) = []"
    by (simp add: empty_store_def empty.rep_eq)
  have f0: "files empty_store = Map.empty" by (simp add: empty_store_def)
  have a0: "\<And>f. accepts empty_store f" by (simp add: empty_store_def)
  have i1: "DAList.impl_of (index s1) = [(a, generate_filename a)]"
    and f1: "files s1 = [generate_filename a \<mapsto> Document ?da]"
    and a1: "\<And>f. accepts s1 f"
    unfolding s1_def by (simp_all add: create_fresh i0 f0 a0 accepted_opens)
  have i2: "DAList.impl_of (index s2) = [(a, generate_filename a), (b, generate_filename b)]"
    and f2: "files s2 = (files s1)(generate_filename b \<mapsto> Document ?db)"
    and a2: "\<And>f. accepts s2 f"
    unfolding s2_def using names by (simp_all add: create_fresh i1 a1 accepted_opens)
  have i3: "DAList.impl_of (index s3) =
      [(a, generate_filename a), (b, generate_filename b), (c, generate_filename c)]"
    and f3: "files s3 = (files s2)(generate_filename c \<mapsto> Document ?dc)"
    unfolding s3_def using names by (simp_all add: create_fresh i2 a2 accepted_opens)
  have la: "load_client_data s3 (generate_filename a) = Some ?da"
    and lb: "load_client_data s3 (generate_filename b) = Some ?db"
    and lc: "load_client_data s3 (generate_filename c) = Some ?dc"
    using h by (simp_all add: load_client_data_def f3 f2 f1)
  have "listed s3 =
      [\<lparr>name = a, service = sa, notes = na, created_at = ta, updated_at = ta'\<rparr>,
       \<lparr>name = b, service = sb, notes = nb, created_at = tb, updated_at = tb'\<rparr>,
       \<lparr>name = c, service = sc, notes = nc, created_at = tc, updated_at = tc'\<rparr>]"
    by (simp add: listed_def i3 la lb lc map_filter_simps basic_fields_def)
  then have "fst (list_clients s3) =
      [\<lparr>name = c, service = sc, notes = nc, created_at = tc, updated_at = tc'\<rparr>,
       \<lparr>name = b, service = sb, notes = nb, created_at = tb, updated_at = tb'\<rparr>,
       \<lparr>name = a, service = sa, notes = na, created_at = ta, updated_at = ta'\<rparr>]"
    using ord by (simp add: list_clients_listed sort_reverse_def)
  moreover have "last (trace
        [Create a sa na ta ta' ta'', Create b sb nb tb tb' tb'', Create c sc nc tc tc' tc'']
        empty_store) = s3"
    by (simp add: s3_def s2_def s1_def)
  ultimately show "fst (list_clients (last (trace
        [Create a sa na ta ta' ta'', Create b sb nb tb tb' tb'', Create c sc nc tc tc' tc'']
        empty_store))) =
        [\<lparr>name = c, service = sc, notes = nc, created_at = tc, updated_at = tc'\<rparr>,
         \<lparr>name = b, service = sb, notes = nb, created_at = tb, updated_at = tb'\<rparr>,
         \<lparr>name = a, service = sa, notes = na, created_at = ta, updated_at = ta'\<rparr>]"
    by simp
qed

theorem list_contract_witness:
  "generate_filename ''Ana'' \<noteq> generate_filename ''Beto'' \<and>
   generate_filename ''Ana'' \<noteq> generate_filename ''Caro'' \<and>
   generate_filename ''Beto'' \<noteq> generate_filename ''Caro'' \<and>
   clock 1 < clock 4 \<and> clock 4 < clock 7 \<and>
   fst (list_clients (last (trace
        [Create ''Ana'' ''Pintura'' '''' (clock 1) (clock 2) (clock 3),
         Create ''Beto'' ''Soldadura'' ''VIP'' (clock 4) (clock 5) (clock 6),
         Create ''Caro'' ''Pintura'' '''' (clock 7) (clock 8) (clock 9)]
        empty_store))) =
     [\<lparr>name = ''Caro'', service = ''Pintura'', notes = '''', created_at = clock 7, updated_at = clock 8\<rparr>,
      \<lparr>name = ''Beto'', service = ''Soldadura'', notes = ''VIP'', created_at = clock 4, updated_at = clock 5\<rparr>,
      \<lparr>name = ''Ana'', service = ''Pintura'', notes = '''', created_at = clock 1, updated_at = clock 2\<rparr>]"
proof -
  have h: "generate_filename ''Ana'' \<noteq> generate_filename ''Beto'' \<and>
   generate_filename ''Ana'' \<noteq> generate_filename ''Caro'' \<and>
   generate_filename ''Beto'' \<noteq> generate_filename ''Caro'' \<and>
   clock 1 < clock 4 \<and> clock 4 < clock 7"
    by code_simp
  note r = list_contract [where s = empty_store and t = "clock 1"
      and a = "''Ana''" and sa = "''Pintura''" and na = "''''"
      and ta = "clock 1" and ta' = "clock 2" and ta'' = "clock 3"
      and b = "''Beto''" and sb = "''Soldadura''" and nb = "''VIP''"
      and tb = "clock 4" and tb' = "clock 5" and tb'' = "clock 6"
      and c = "''Caro''" and sc = "''Pintura''" and nc = "''''"
      and tc = "clock 7" and tc' = "clock 8" and tc'' = "clock 9",
      THEN conjunct2, THEN conjunct2, THEN conjunct2, THEN conjunct2, rule_format, OF h]
  from h r show ?thesis by blast
qed

text \<open>
  Without the condition on the derived file names the order \<open>c\<close>, \<open>b\<close>, \<open>a\<close> fails:
  created in the order \<^verbatim>\<open>a\<close>, \<^verbatim>\<open>A\<close>, \<^verbatim>\<open>b\<close> with increasing timestamps, the clients
  are not listed as \<^verbatim>\<open>b\<close>, \<^verbatim>\<open>A\<close>, \<^verbatim>\<open>a\<close>, since the file of \<^verbatim>\<open>a\<close> was overwritten by
  the creation of \<^verbatim>\<open>A\<close>.
\<close>

theorem list_order_counterexample:
  "clock 1 < clock 4 \<and> clock 4 < clock 7 \<and>
   map name (fst (list_clients (last (trace colliding empty_store)))) \<noteq> [''b'', ''A'', ''a'']"
  by code_simp

subsection \<open>Search\<close>

text \<open>
  C7. \<^const>\<open>search_clients\<close> returns the entries of the result of \<^const>\<open>list_clients\<close>
  for which the lowercased query is a substring of the lowercased name, service or
  notes, in the same order and as they are listed, and leaves the store unchanged.
\<close>

theorem search_contract:
  "search_clients q s =
     (filter (\<lambda>c. sublist (lower q) (lower (name c)) \<or>
                   sublist (lower q) (lower (service c)) \<or>
                   sublist (lower q) (lower (notes c)))
        (fst (list_clients s)),
      s)"
  by (simp add: search_clients_def matching_filter str_in_sublist Let_def list_clients_def)

text \<open>The searches of the specification's example.\<close>

theorem search_contract_witness:
  "map name (fst (search_clients ''SOLD'' store_juan)) = [''Juan Perez''] \<and>
   map name (fst (search_clients ''juan'' store_juan)) = [''Juan Perez''] \<and>
   map name (fst (search_clients ''PREMIUM'' store_juan)) = [''Juan Perez''] \<and>
   fst (search_clients ''zzz'' store_juan) = [] \<and>
   snd (search_clients ''SOLD'' store_juan) = store_juan"
proof -
  have l: "fst (list_clients store_juan) =
      [\<lparr>name = ''Juan Perez'', service = ''Soldadura'', notes = ''premium'',
        created_at = clock 1, updated_at = clock 2\<rparr>]"
    by code_simp
  have m: "sublist (lower ''SOLD'') (lower ''Soldadura'')" "sublist (lower ''juan'') (lower ''Juan Perez'')"
    "sublist (lower ''PREMIUM'') (lower ''premium'')"
    "\<not> sublist (lower ''zzz'') (lower ''Juan Perez'')" "\<not> sublist (lower ''zzz'') (lower ''Soldadura'')"
    "\<not> sublist (lower ''zzz'') (lower ''premium'')"
    by code_simp+
  show ?thesis
    unfolding search_contract l using m by simp
qed

subsection \<open>Consistency of index and records\<close>


lemma filename_in_use_iff:
  "filename_in_use f s \<longleftrightarrow> (\<exists>k. DAList.lookup (index s) k = Some f)"
  by (force simp: filename_in_use_def lookup_impl_of)










subsection \<open>History is only appended to\<close>

lemma history_preserved_refl: "history_preserved k s s"
  by (simp add: history_preserved_def split: option.splits)

lemma history_preserved_rewrite:
  assumes d: "load_client_data s f = Some d" and p: "prefix (history d) (history d')"
  shows "history_preserved k s (s\<lparr>files := (files s)(f \<mapsto> Document d')\<rparr>)"
  using assms
  by (auto simp: history_preserved_def record_of_def load_files_upd split: option.splits)

lemma history_preserved_create:
  assumes free: "collision_free (Create nm sv nt t1 t2 t3) s"
  shows "history_preserved k s (snd (create_client nm sv nt t1 t2 t3 s))"
proof (cases "DAList.lookup (index s) nm = None \<and> opens_for_writing s (generate_filename nm)")
  case False
  then show ?thesis by (simp add: create_unchanged history_preserved_refl)
next
  case True
  then have None: "DAList.lookup (index s) nm = None"
    and w: "opens_for_writing s (generate_filename nm)" by simp_all
  have nouse: "\<And>k. DAList.lookup (index s) k \<noteq> Some (generate_filename nm)"
    using free None by (auto simp: filename_in_use_iff)
  show ?thesis
  proof (cases "k = nm")
    case True
    then show ?thesis using None by (simp add: history_preserved_def record_of_def)
  next
    case False
    show ?thesis
    proof (cases "DAList.lookup (index s) k")
      case None
      then show ?thesis by (simp add: history_preserved_def record_of_def)
    next
      case (Some g)
      then have "g \<noteq> generate_filename nm" using nouse by auto
      then show ?thesis
        using Some False
        by (simp add: create_absent [OF \<open>DAList.lookup (index s) nm = None\<close> w]
            history_preserved_def record_of_def load_client_data_def split: option.splits)
    qed
  qed
qed

lemma history_preserved_update:
  "history_preserved k s (snd (update_client nm sv nt t1 t2 s))"
proof (cases "DAList.lookup (index s) nm")
  case None
  then show ?thesis by (simp add: update_absent history_preserved_refl)
next
  case (Some f)
  note l = this
  show ?thesis
  proof (cases "load_client_data s f")
    case None
    then show ?thesis using l by (simp add: update_unreadable history_preserved_refl)
  next
    case (Some d)
    show ?thesis
    proof (cases "differs sv (service d) \<or> differs nt (notes d)")
      case True
      show ?thesis
        unfolding update_changed [OF l Some True] snd_conv
        by (rule history_preserved_rewrite [OF Some]) simp
    next
      case False
      then show ?thesis using update_same [OF l Some] by (simp add: history_preserved_refl)
    qed
  qed
qed

lemma history_preserved_consult:
  "history_preserved k s (snd (consult_client nm t s))"
proof (cases "DAList.lookup (index s) nm")
  case None
  then show ?thesis by (simp add: consult_absent history_preserved_refl)
next
  case (Some f)
  note l = this
  show ?thesis
  proof (cases "load_client_data s f")
    case None
    then show ?thesis using l by (simp add: consult_unreadable history_preserved_refl)
  next
    case (Some d)
    show ?thesis
      unfolding consult_found [OF l Some] snd_conv
      by (rule history_preserved_rewrite [OF Some]) simp
  qed
qed

lemma history_preserved_delete:
  "history_preserved k s (snd (delete_client nm s))"
proof (cases "DAList.lookup (index s) nm")
  case None
  then show ?thesis by (simp add: delete_absent history_preserved_refl)
next
  case (Some f)
  show ?thesis
    unfolding delete_present [OF Some] snd_conv
    by (auto simp: history_preserved_def record_of_def load_client_data_def split: option.splits)
qed

text \<open>
  C8 (as amended). For every operation that is not the creation of a new client whose
  derived file name is in use by another client, and for every client with a record
  before and after the operation, the history before is a prefix of the history
  after. When a creation returns \<^const>\<open>True\<close>, the record of the new client has
  the history of exactly one \<^verbatim>\<open>created\<close> entry.
\<close>

theorem history_append_only:
  "(collision_free x s \<longrightarrow> history_preserved k s (apply_op x s)) \<and>
   (fst (create_client nm sv nt ta tb tc s) = Inr True \<longrightarrow>
      map_option history (record_of (apply_op (Create nm sv nt ta tb tc) s) nm) =
        Some [Created sv nt tc])"
proof (intro conjI impI)
  assume free: "collision_free x s"
  show "history_preserved k s (apply_op x s)"
  proof (cases x)
    case (Create nm sv nt t1 t2 t3)
    then show ?thesis using free history_preserved_create by simp
  next
    case (Update nm sv nt t1 t2)
    then show ?thesis by (simp add: history_preserved_update)
  next
    case (Consult nm t)
    then show ?thesis by (simp add: history_preserved_consult)
  next
    case ListClients
    then show ?thesis by (simp add: list_clients_store history_preserved_refl)
  next
    case (Delete nm)
    then show ?thesis by (simp add: history_preserved_delete)
  next
    case (Search q)
    then show ?thesis by (simp add: search_clients_store history_preserved_refl)
  next
    case Count
    then show ?thesis by (simp add: count_store history_preserved_refl)
  qed
next
  assume "fst (create_client nm sv nt ta tb tc s) = Inr True"
  then have "DAList.lookup (index s) nm = None"
    and "opens_for_writing s (generate_filename nm)"
    by (simp_all add: create_created_iff)
  then show "map_option history (record_of (apply_op (Create nm sv nt ta tb tc) s) nm) =
      Some [Created sv nt tc]"
    by (simp add: create_absent record_of_def load_client_data_def)
qed

theorem history_append_only_witness:
  "collision_free (Consult ''Ana'' (clock 4)) store_ana \<and>
   history_preserved ''Ana'' store_ana (apply_op (Consult ''Ana'' (clock 4)) store_ana) \<and>
   map_option history
     (record_of (apply_op (Create ''Ana'' ''Pintura'' '''' (clock 1) (clock 2) (clock 3)) empty_store)
        ''Ana'') =
     Some [Created ''Pintura'' '''' (clock 3)]"
proof -
  have a: "collision_free (Consult ''Ana'' (clock 4)) store_ana" by code_simp
  have b: "fst (create_client ''Ana'' ''Pintura'' [] (clock 1) (clock 2) (clock 3) empty_store) =
      Inr True"
    by code_simp
  note r = history_append_only [where x = "Consult ''Ana'' (clock 4)" and s = store_ana
      and k = "''Ana''", THEN conjunct1, rule_format, OF a]
  note q = history_append_only [where s = empty_store and nm = "''Ana''" and sv = "''Pintura''"
      and nt = "''''" and ta = "clock 1" and tb = "clock 2" and tc = "clock 3",
      THEN conjunct2, rule_format, OF b]
  from a r q show ?thesis by blast
qed

text \<open>
  Without the proviso a history is replaced: the creation of \<^verbatim>\<open>A\<close> overwrites the file
  of \<^verbatim>\<open>a\<close>, and the history that \<^verbatim>\<open>a\<close> had is no prefix of the one it has afterwards.
\<close>

theorem history_counterexample:
  "\<not> history_preserved ''a''
       (apply_op (Create ''a'' ''Pintura'' '''' (clock 1) (clock 2) (clock 3)) empty_store)
       (apply_op (Create ''A'' ''Soldadura'' '''' (clock 4) (clock 5) (clock 6))
          (apply_op (Create ''a'' ''Pintura'' '''' (clock 1) (clock 2) (clock 3)) empty_store))"
  by code_simp

end
